theory Spec2Isabelle
  imports Main
begin

section \<open>Strings of code points\<close>

text \<open>
  A Python \<open>str\<close> is a sequence of Unicode code points. It is modelled as a list of
  natural numbers, one per code point; \<open>U\<close> reads an ASCII literal.
\<close>

type_synonym str = "nat list"

definition U :: "string \<Rightarrow> str" where
  "U s = map of_char s"

text \<open>
  \<open>str.isspace\<close>, \<open>str.strip()\<close> without argument and the class \<open>\s\<close> of a str
  pattern all use the same set of code points.
\<close>

definition is_space :: "nat \<Rightarrow> bool" where
  "is_space c \<longleftrightarrow>
     (9 \<le> c \<and> c \<le> 13) \<or> (28 \<le> c \<and> c \<le> 32) \<or> c = 133 \<or> c = 160 \<or> c = 5760 \<or>
     (8192 \<le> c \<and> c \<le> 8202) \<or> c = 8232 \<or> c = 8233 \<or> c = 8239 \<or> c = 8287 \<or> c = 12288"

text \<open>
  The class \<open>\d\<close> of a str pattern is the general category Nd: blocks of ten consecutive
  code points, listed by their first element (Unicode 14).
\<close>

definition nd_starts :: "nat list" where
  "nd_starts =
     [48, 1632, 1776, 1984, 2406, 2534, 2662, 2790, 2918, 3046, 3174, 3302, 3430, 3558,
      3664, 3792, 3872, 4160, 4240, 6112, 6160, 6470, 6608, 6784, 6800, 6992, 7088, 7232,
      7248, 42528, 43216, 43264, 43472, 43504, 43600, 44016, 65296, 66720, 68912, 69734,
      69872, 69942, 70096, 70384, 70736, 70864, 71248, 71360, 71472, 71904, 72016, 72784,
      73040, 73120, 92768, 92864, 93008, 120782, 120792, 120802, 120812, 120822, 123200,
      123632, 125264, 130032]"

definition is_digit :: "nat \<Rightarrow> bool" where
  "is_digit c \<longleftrightarrow> list_ex (\<lambda>b. b \<le> c \<and> c < b + 10) nd_starts"

text \<open>
  Matching a cased ASCII letter of a pattern under \<open>re.IGNORECASE\<close>: both cases of the
  letter, and the four further letters whose case mapping reaches ASCII
  (U+0130, U+0131 for i, U+017F for s, U+212A for k). Other ASCII characters match only
  themselves.
\<close>

definition casefold :: "nat \<Rightarrow> nat" where
  "casefold c =
     (if 65 \<le> c \<and> c \<le> 90 then c + 32
      else if c = 304 \<or> c = 305 then 105
      else if c = 383 then 115
      else if c = 8490 then 107
      else c)"

definition ieq :: "nat \<Rightarrow> nat \<Rightarrow> bool" where
  "ieq p c \<longleftrightarrow> casefold c = casefold p"

subsection \<open>String methods\<close>

definition lstrip :: "str \<Rightarrow> str" where
  "lstrip s = dropWhile is_space s"

definition rstrip :: "str \<Rightarrow> str" where
  "rstrip s = rev (dropWhile is_space (rev s))"

definition strip :: "str \<Rightarrow> str" where
  "strip s = rstrip (lstrip s)"

definition rstrip_chars :: "str \<Rightarrow> str \<Rightarrow> str" where
  "rstrip_chars cs s = rev (dropWhile (\<lambda>c. c \<in> set cs) (rev s))"

definition strip_chars :: "str \<Rightarrow> str \<Rightarrow> str" where
  "strip_chars cs s = rstrip_chars cs (dropWhile (\<lambda>c. c \<in> set cs) s)"

text \<open>
  \<open>str.splitlines()\<close>: the line boundaries are LF, CR, CR LF, VT, FF, FS, GS, RS, NEL, LS
  and PS; a final boundary does not open a further line.
\<close>

definition is_linebreak :: "nat \<Rightarrow> bool" where
  "is_linebreak c \<longleftrightarrow>
     (10 \<le> c \<and> c \<le> 13) \<or> (28 \<le> c \<and> c \<le> 30) \<or> c = 133 \<or> c = 8232 \<or> c = 8233"

fun splitlines :: "str \<Rightarrow> str list" where
  "splitlines [] = []"
| "splitlines (c # s) =
     (if is_linebreak c then
        (case s of
           d # s' \<Rightarrow> if c = 13 \<and> d = 10 then [] # splitlines s' else [] # splitlines s
         | [] \<Rightarrow> [[]])
      else (case splitlines s of [] \<Rightarrow> [[c]] | l # ls \<Rightarrow> (c # l) # ls))"

text \<open>\<open>sep.join(xs)\<close>.\<close>

fun join :: "str \<Rightarrow> str list \<Rightarrow> str" where
  "join sep [] = []"
| "join sep [x] = x"
| "join sep (x # y # ys) = x @ sep @ join sep (y # ys)"

text \<open>Decimal rendering of an index inside an f-string.\<close>

function dec_str :: "nat \<Rightarrow> str" where
  "dec_str n = (if n < 10 then [48 + n] else dec_str (n div 10) @ [48 + n mod 10])"
  by pat_completeness auto
termination
  by (relation "measure id") auto

subsection \<open>Dictionaries\<close>

text \<open>
  A \<open>dict\<close> keeps its keys in insertion order; assigning to a present key replaces the
  value in place.
\<close>

type_synonym ('k, 'v) dict = "('k \<times> 'v) list"

fun dict_set :: "('k, 'v) dict \<Rightarrow> 'k \<Rightarrow> 'v \<Rightarrow> ('k, 'v) dict" where
  "dict_set [] k v = [(k, v)]"
| "dict_set ((k', v') # d) k v = (if k' = k then (k, v) # d else (k', v') # dict_set d k v)"

definition dict_get :: "('k, 'v) dict \<Rightarrow> 'k \<Rightarrow> 'v \<Rightarrow> 'v" where
  "dict_get d k dflt = (case map_of d k of Some v \<Rightarrow> v | None \<Rightarrow> dflt)"

section \<open>Regular expressions\<close>

text \<open>
  Every pattern of the program is a sequence of items: a character class with a counted
  repetition (greedy or lazy), an alternation of literal strings, a literal matched
  without regard to case, or an anchor. A group of a pattern is one item of the sequence.

  \<^item> \<open>Rep p lo hi g\<close>: between \<open>lo\<close> and \<open>hi\<close> characters of class \<open>p\<close> (\<open>None\<close>: unbounded),
    greedy when \<open>g\<close>;
  \<^item> \<open>Alt ls\<close>: the literals \<open>ls\<close>, tried in order;
  \<^item> \<open>LitI l\<close>: the literal \<open>l\<close> under \<open>re.IGNORECASE\<close>;
  \<^item> \<open>Bol\<close>, \<open>Eol\<close>: \<open>^\<close> and \<open>$\<close> under \<open>re.MULTILINE\<close>;
  \<^item> \<open>BolS\<close>, \<open>EolS\<close>: \<open>^\<close> and \<open>$\<close> without that flag.
\<close>

datatype item =
    Rep "nat \<Rightarrow> bool" nat "nat option" bool
  | Alt "str list"
  | LitI str
  | Bol
  | Eol
  | BolS
  | EolS

fun dec_bound :: "nat option \<Rightarrow> nat option" where
  "dec_bound None = None"
| "dec_bound (Some n) = Some (n - 1)"

fun push_seg :: "str \<Rightarrow> (str list \<times> str) option \<Rightarrow> (str list \<times> str) option" where
  "push_seg seg None = None"
| "push_seg seg (Some (segs, r)) = Some (seg # segs, r)"

fun grow_seg :: "nat \<Rightarrow> (str list \<times> str) option \<Rightarrow> (str list \<times> str) option" where
  "grow_seg c (Some (seg # segs, r)) = Some ((c # seg) # segs, r)"
| "grow_seg c _ = None"

fun last_char :: "nat option \<Rightarrow> str \<Rightarrow> nat option" where
  "last_char prev [] = prev"
| "last_char prev (c # s) = Some (last (c # s))"

fun item_size :: "item \<Rightarrow> nat" where
  "item_size (Alt ls) = Suc (length ls)"
| "item_size _ = 1"

text \<open>
  The backtracking matcher. \<open>match_here its prev s\<close> matches the items at the head of
  \<open>s\<close>, where \<open>prev\<close> is the character before \<open>s\<close> in the subject (\<open>None\<close> at its start). It
  returns the text taken by each item and the rest of the subject, for the first
  success in the order in which \<open>re\<close> explores: a greedy repetition tries one more
  character before it tries to stop, a lazy one the other way round, an alternation tries
  its branches from left to right.
\<close>

function match_here :: "item list \<Rightarrow> nat option \<Rightarrow> str \<Rightarrow> (str list \<times> str) option" where
  "match_here [] prev s = Some ([], s)"
| "match_here (Bol # its) prev s =
     (if prev = None \<or> prev = Some 10 then push_seg [] (match_here its prev s) else None)"
| "match_here (BolS # its) prev s =
     (if prev = None then push_seg [] (match_here its prev s) else None)"
| "match_here (Eol # its) prev s =
     (if s = [] \<or> hd s = 10 then push_seg [] (match_here its prev s) else None)"
| "match_here (EolS # its) prev s =
     (if s = [] \<or> s = [10] then push_seg [] (match_here its prev s) else None)"
| "match_here (Alt [] # its) prev s = None"
| "match_here (Alt (l # ls) # its) prev s =
     (case (if take (length l) s = l
            then push_seg l (match_here its (last_char prev l) (drop (length l) s))
            else None) of
        Some r \<Rightarrow> Some r
      | None \<Rightarrow> match_here (Alt ls # its) prev s)"
| "match_here (LitI l # its) prev s =
     (if length l \<le> length s \<and> list_all2 ieq l (take (length l) s)
      then push_seg (take (length l) s)
             (match_here its (last_char prev (take (length l) s)) (drop (length l) s))
      else None)"
| "match_here (Rep p lo hi g # its) prev s =
     (if g then
        (case (case s of
                 [] \<Rightarrow> None
               | c # s' \<Rightarrow>
                   if p c \<and> hi \<noteq> Some 0
                   then grow_seg c (match_here (Rep p (lo - 1) (dec_bound hi) g # its) (Some c) s')
                   else None) of
           Some r \<Rightarrow> Some r
         | None \<Rightarrow> if lo = 0 then push_seg [] (match_here its prev s) else None)
      else
        (case (if lo = 0 then push_seg [] (match_here its prev s) else None) of
           Some r \<Rightarrow> Some r
         | None \<Rightarrow>
             (case s of
                [] \<Rightarrow> None
              | c # s' \<Rightarrow>
                  if p c \<and> hi \<noteq> Some 0
                  then grow_seg c (match_here (Rep p (lo - 1) (dec_bound hi) g # its) (Some c) s')
                  else None)))"
  by pat_completeness auto
termination
  by (relation "measure (\<lambda>(its, prev, s). sum_list (map item_size its) + length s)") auto

text \<open>
  \<open>re.match\<close> tries the start of the subject only; \<open>re.search\<close> tries every position
  from left to right and also returns the text it skipped.
\<close>

definition re_match :: "item list \<Rightarrow> str \<Rightarrow> (str list \<times> str) option" where
  "re_match its s = match_here its None s"

fun skip_char :: "nat \<Rightarrow> (str \<times> str list \<times> str) option \<Rightarrow> (str \<times> str list \<times> str) option" where
  "skip_char c None = None"
| "skip_char c (Some (pre, segs, r)) = Some (c # pre, segs, r)"

fun search_from :: "item list \<Rightarrow> nat option \<Rightarrow> str \<Rightarrow> (str \<times> str list \<times> str) option" where
  "search_from its prev [] =
     (case match_here its prev [] of Some (segs, r) \<Rightarrow> Some ([], segs, r) | None \<Rightarrow> None)"
| "search_from its prev (c # s) =
     (case match_here its prev (c # s) of
        Some (segs, r) \<Rightarrow> Some ([], segs, r)
      | None \<Rightarrow> skip_char c (search_from its (Some c) s))"

definition re_search :: "item list \<Rightarrow> str \<Rightarrow> (str \<times> str list \<times> str) option" where
  "re_search its s = search_from its None s"

text \<open>
  \<open>re.sub\<close>, \<open>re.split\<close> and \<open>re.finditer\<close> walk over the subject from left to right and
  resume after each match. Every pattern the program hands to them takes at least one
  character; for a match that takes none, one character is passed over so that the walk
  goes on.
\<close>

function sub_from :: "item list \<Rightarrow> (str list \<Rightarrow> str) \<Rightarrow> nat option \<Rightarrow> str \<Rightarrow> str" where
  "sub_from its repl prev s =
     (case match_here its prev s of
        Some (segs, r) \<Rightarrow>
          if length r < length s
          then repl segs @ sub_from its repl (last_char prev (concat segs)) r
          else (case s of [] \<Rightarrow> repl segs | c # s' \<Rightarrow> repl segs @ c # sub_from its repl (Some c) s')
      | None \<Rightarrow> (case s of [] \<Rightarrow> [] | c # s' \<Rightarrow> c # sub_from its repl (Some c) s'))"
  by pat_completeness auto
termination
  by (relation "measure (\<lambda>(its, repl, prev, s). length s)") auto

definition re_sub :: "item list \<Rightarrow> (str list \<Rightarrow> str) \<Rightarrow> str \<Rightarrow> str" where
  "re_sub its repl s = sub_from its repl None s"

fun grow_head :: "nat \<Rightarrow> str list \<Rightarrow> str list" where
  "grow_head c [] = [[c]]"
| "grow_head c (p # ps) = (c # p) # ps"

function split_from :: "item list \<Rightarrow> nat option \<Rightarrow> str \<Rightarrow> str list" where
  "split_from its prev s =
     (case match_here its prev s of
        Some (segs, r) \<Rightarrow>
          if length r < length s
          then [] # split_from its (last_char prev (concat segs)) r
          else (case s of [] \<Rightarrow> [[], []] | c # s' \<Rightarrow> [] # grow_head c (split_from its (Some c) s'))
      | None \<Rightarrow> (case s of [] \<Rightarrow> [[]] | c # s' \<Rightarrow> grow_head c (split_from its (Some c) s')))"
  by pat_completeness auto
termination
  by (relation "measure (\<lambda>(its, prev, s). length s)") auto

definition re_split :: "item list \<Rightarrow> str \<Rightarrow> str list" where
  "re_split its s = split_from its None s"

function finditer_from :: "item list \<Rightarrow> nat option \<Rightarrow> str \<Rightarrow> str list list" where
  "finditer_from its prev s =
     (case match_here its prev s of
        Some (segs, r) \<Rightarrow>
          if length r < length s
          then segs # finditer_from its (last_char prev (concat segs)) r
          else (case s of [] \<Rightarrow> [segs] | c # s' \<Rightarrow> segs # finditer_from its (Some c) s')
      | None \<Rightarrow> (case s of [] \<Rightarrow> [] | c # s' \<Rightarrow> finditer_from its (Some c) s'))"
  by pat_completeness auto
termination
  by (relation "measure (\<lambda>(its, prev, s). length s)") auto

definition re_finditer :: "item list \<Rightarrow> str \<Rightarrow> str list list" where
  "re_finditer its s = finditer_from its None s"

subsection \<open>Building patterns\<close>

definition lit :: "string \<Rightarrow> item" where
  "lit l = Alt [U l]"

definition star :: "(nat \<Rightarrow> bool) \<Rightarrow> item" where
  "star p = Rep p 0 None True"

definition plus :: "(nat \<Rightarrow> bool) \<Rightarrow> item" where
  "plus p = Rep p 1 None True"

definition lazy_star :: "(nat \<Rightarrow> bool) \<Rightarrow> item" where
  "lazy_star p = Rep p 0 None False"

definition times :: "(nat \<Rightarrow> bool) \<Rightarrow> nat \<Rightarrow> nat \<Rightarrow> item" where
  "times p lo hi = Rep p lo (Some hi) True"

definition none_of :: "string \<Rightarrow> nat \<Rightarrow> bool" where
  "none_of cs c \<longleftrightarrow> c \<notin> set (U cs)"

definition one_of :: "string \<Rightarrow> nat \<Rightarrow> bool" where
  "one_of cs c \<longleftrightarrow> c \<in> set (U cs)"

definition any_char :: "nat \<Rightarrow> bool" where
  "any_char c \<longleftrightarrow> True"

definition not_newline :: "nat \<Rightarrow> bool" where
  "not_newline c \<longleftrightarrow> c \<noteq> 10"

definition digit_or_colon :: "nat \<Rightarrow> bool" where
  "digit_or_colon c \<longleftrightarrow> is_digit c \<or> c = 58"

section \<open>The song tokenizer\<close>

definition SONGS_WITH_COMMAS :: "str list" where
  "SONGS_WITH_COMMAS =
     [U ''April 29, 1992 (Miami)'',
      U ''Smooth, Relax, Down'',
      U ''To Be Young (Is To Be Sad, Is To Be High)'']"

definition placeholder :: "nat \<Rightarrow> str" where
  "placeholder idx = U ''___PROTECTED_SONG_'' @ dec_str idx @ U ''___''"

text \<open>The annotation patterns \<open>\s*\(\d+[\d:]*\)\<close> and \<open>\s*\[\s*\d+[\d:]*\s*\]\<close>.\<close>

definition paren_annotation :: "item list" where
  "paren_annotation = [star is_space, lit ''('', plus is_digit, star digit_or_colon, lit '')'']"

definition bracket_annotation :: "item list" where
  "bracket_annotation =
     [star is_space, lit ''['', star is_space, plus is_digit, star digit_or_colon,
      star is_space, lit '']'']"

definition song_patterns :: "str \<Rightarrow> item list list" where
  "song_patterns song =
     [LitI song # paren_annotation, LitI song # bracket_annotation, [LitI song]]"

text \<open>The inner loop over the three variants: the first one found is substituted.\<close>

fun protect_variants ::
  "item list list \<Rightarrow> str \<Rightarrow> str \<Rightarrow> str \<times> (str, str) dict \<Rightarrow> str \<times> (str, str) dict" where
  "protect_variants [] ph song (content, replacements) = (content, replacements)"
| "protect_variants (pattern # patterns) ph song (content, replacements) =
     (if re_search pattern content \<noteq> None
      then (re_sub pattern (\<lambda>_. ph) content, dict_set replacements ph song)
      else protect_variants patterns ph song (content, replacements))"

definition protect_song :: "str \<times> (str, str) dict \<Rightarrow> nat \<times> str \<Rightarrow> str \<times> (str, str) dict" where
  "protect_song st e = protect_variants (song_patterns (snd e)) (placeholder (fst e)) (snd e) st"

definition protect :: "str \<Rightarrow> str \<times> (str, str) dict" where
  "protect set_content = foldl protect_song (set_content, []) (enumerate 0 SONGS_WITH_COMMAS)"

text \<open>The transition symbols \<open>(?:->|>|\<rightarrow>|\<endash>|\<emdash>)\<close> and the separators \<open>\s*(?:,|;|\|)\s*\<close>.\<close>

definition transitions :: "item list" where
  "transitions = [Alt [U ''->'', U ''>'', [8594], [8211], [8212]]]"

definition separators :: "item list" where
  "separators = [star is_space, Alt [U '','', U '';'', U ''|''], star is_space]"

definition trailing_number :: "item list" where
  "trailing_number = [plus is_space, plus is_digit, EolS]"

definition whitespace_run :: "item list" where
  "whitespace_run = [plus is_space]"

definition split_parts :: "str \<Rightarrow> str list" where
  "split_parts content = map strip (filter (\<lambda>s. strip s \<noteq> []) (re_split separators content))"

text \<open>The cleanup of one fragment that is not a placeholder.\<close>

definition clean_song_name :: "str \<Rightarrow> str" where
  "clean_song_name part =
     (let song_name = re_sub paren_annotation (\<lambda>_. []) part;
          song_name = re_sub bracket_annotation (\<lambda>_. []) song_name;
          song_name = re_sub trailing_number (\<lambda>_. []) song_name
      in re_sub whitespace_run (\<lambda>_. U '' '') (strip (rstrip_chars (U ''-'') song_name)))"

fun collect_songs :: "(str, str) dict \<Rightarrow> str list \<Rightarrow> str list" where
  "collect_songs replacements [] = []"
| "collect_songs replacements (part # parts) =
     (case map_of replacements part of
        Some song \<Rightarrow> song # collect_songs replacements parts
      | None \<Rightarrow>
          (if clean_song_name part \<noteq> []
           then clean_song_name part # collect_songs replacements parts
           else collect_songs replacements parts))"

definition parse_songs_from_setlist :: "str \<Rightarrow> str list" where
  "parse_songs_from_setlist set_content =
     (if set_content = [] \<or> strip set_content = [] then []
      else
        (let (protected_content, replacements) = protect set_content;
             content = re_sub transitions (\<lambda>_. U '','') protected_content
         in collect_songs replacements (split_parts content)))"

section \<open>Helpers for the notes\<close>

text \<open>Group \<open>i\<close> of a match is the text taken by item \<open>i\<close> of the pattern.\<close>

definition group :: "str list \<Rightarrow> nat \<Rightarrow> str" where
  "group segs i = (if i < length segs then segs ! i else [])"

text \<open>The link patterns \<open>\[\[([^\]|]+)\|([^\]]+)\]\]\<close> and \<open>\[\[([^\]]+)\]\]\<close>.\<close>

definition piped_link :: "item list" where
  "piped_link = [lit ''[['', plus (none_of '']|''), lit ''|'', plus (none_of '']''), lit '']]'']"

definition plain_link :: "item list" where
  "plain_link = [lit ''[['', plus (none_of '']''), lit '']]'']"

definition clean_wiki_links :: "str \<Rightarrow> str" where
  "clean_wiki_links s =
     (let s = re_sub piped_link (\<lambda>segs. group segs 3) s;
          s = re_sub plain_link (\<lambda>segs. group segs 1) s
      in strip s)"

subsection \<open>Frontmatter\<close>

text \<open>
  The block pattern \<open>^---\s*\n(.*?)\n---\s*\<close> under \<open>re.DOTALL | re.MULTILINE\<close>, the line
  pattern \<open>^\s*([^:\n]+)\s*:\s*(.*?)\s*$\<close> under \<open>re.MULTILINE\<close>, and the date pattern
  \<open>(\d{4}-\d{2}-\d{2})\<close>, whose group is the whole match.
\<close>

definition frontmatter_block :: "item list" where
  "frontmatter_block =
     [Bol, lit ''---'', star is_space, Alt [[10]], lazy_star any_char, Alt [10 # U ''---''],
      star is_space]"

definition key_value_line :: "item list" where
  "key_value_line =
     [Bol, star is_space, plus (\<lambda>c. c \<noteq> 58 \<and> c \<noteq> 10), star is_space, lit '':'', star is_space,
      lazy_star not_newline, star is_space, Eol]"

definition date_pattern :: "item list" where
  "date_pattern = [times is_digit 4 4, lit ''-'', times is_digit 2 2, lit ''-'', times is_digit 2 2]"

text \<open>
  \<open>key.lower() == 'date'\<close>: the only characters that \<open>str.lower\<close> sends to one of
  \<open>d\<close>, \<open>a\<close>, \<open>t\<close>, \<open>e\<close> are these letters and their capitals.
\<close>

definition ascii_lower :: "nat \<Rightarrow> nat" where
  "ascii_lower c = (if 65 \<le> c \<and> c \<le> 90 then c + 32 else c)"

definition lower_is_date :: "str \<Rightarrow> bool" where
  "lower_is_date key \<longleftrightarrow> map ascii_lower key = U ''date''"

definition frontmatter_entry :: "(str, str) dict \<Rightarrow> str list \<Rightarrow> (str, str) dict" where
  "frontmatter_entry metadata m =
     (let key = strip (group m 2);
          val = strip_chars [39] (strip_chars [34] (strip (group m 6)))
      in if val = [] then metadata
         else if lower_is_date key then
           (case re_search date_pattern val of
              Some (pre, segs, r) \<Rightarrow> dict_set metadata key (concat segs)
            | None \<Rightarrow> dict_set metadata key val)
         else dict_set metadata key val)"

definition parse_obsidian_frontmatter :: "str \<Rightarrow> (str, str) dict" where
  "parse_obsidian_frontmatter content =
     (case re_search frontmatter_block content of
        None \<Rightarrow> []
      | Some (pre, fm, r) \<Rightarrow> foldl frontmatter_entry [] (re_finditer key_value_line (group fm 4)))"

subsection \<open>Sections\<close>

text \<open>The indices of the lines whose stripped text is \<open>---\<close>.\<close>

definition marker_lines :: "str list \<Rightarrow> nat list" where
  "marker_lines lines = filter (\<lambda>i. strip (lines ! i) = U ''---'') [0..<length lines]"

text \<open>The pattern \<open>\*\*MVP:\*\*\s*$\<close> under \<open>re.MULTILINE\<close>.\<close>

definition mvp_line :: "item list" where
  "mvp_line = [lit ''**MVP:**'', star is_space, Eol]"

definition extract_review_section :: "str \<Rightarrow> str" where
  "extract_review_section content =
     (let lines = splitlines content;
          markers = marker_lines lines
      in if length markers < 3 then []
         else
           (let start_line = markers ! 2 + 1;
                review_lines =
                  (if length markers \<ge> 4
                   then take (markers ! 3 - start_line) (drop start_line lines)
                   else drop start_line lines);
                review_content = strip (join [10] review_lines)
            in strip (re_sub mvp_line (\<lambda>_. []) review_content)))"

text \<open>
  The setlist region of \<open>parse_obsidian_setlist\<close>: the range of line indices that its loop
  visits, from the line after the second marker up to the third marker, or to the end of
  the document when there is no third one; none when there are fewer than two markers.
\<close>

definition setlist_region :: "str list \<Rightarrow> (nat \<times> nat) option" where
  "setlist_region lines =
     (let markers = marker_lines lines
      in if length markers < 2 then None
         else Some (markers ! 1 + 1, if length markers \<ge> 3 then markers ! 2 else length lines))"

text \<open>The header pattern \<open>\*{2,3}([^*:]+)\s*:\*{2,3}\s*(.+)\<close>, tried at the start of a line.\<close>

definition section_header :: "item list" where
  "section_header =
     [times (one_of ''*'') 2 3, plus (none_of ''*:''), star is_space, lit '':'',
      times (one_of ''*'') 2 3, star is_space, plus not_newline]"

definition setlist_line :: "str list \<Rightarrow> (str, str) dict \<Rightarrow> nat \<Rightarrow> (str, str) dict" where
  "setlist_line lines sets idx =
     (let line = strip (lines ! idx)
      in if line = [] then sets
         else
           (case re_match section_header line of
              Some (m, r) \<Rightarrow> dict_set sets (strip (group m 1)) (clean_wiki_links (group m 6))
            | None \<Rightarrow> sets))"

definition parse_obsidian_setlist :: "str \<Rightarrow> (str, str) dict" where
  "parse_obsidian_setlist content =
     (let lines = splitlines content
      in case setlist_region lines of
           None \<Rightarrow> []
         | Some (first, stop) \<Rightarrow> foldl (setlist_line lines) [] [first..<stop])"

section \<open>Scanning the vault\<close>

text \<open>
  A show as \<open>build_song_database\<close> reads it: the three fields that it fetches with
  \<open>.get\<close> may be absent from a loaded database, the others are not read again.
\<close>

record show_data =
  date :: "str option"
  venue :: str
  city :: str
  state :: str
  tour :: str
  show_number :: str
  rating :: str
  sets :: "(str, str) dict option"
  show_notes :: "str list"
  source :: str
  obsidian_file :: str
  url :: "str option"

text \<open>A markdown file of the vault: its stem, its path, and its text when it can be read.\<close>

record md_file =
  stem :: str
  path :: str
  text_of :: "str option"

text \<open>The filename filter \<open>'_' in stem or not re.match(r'^\d{4}-\d{2}-\d{2}$', stem)\<close>.\<close>

definition stem_pattern :: "item list" where
  "stem_pattern = BolS # date_pattern @ [EolS]"

definition filtered_out :: "str \<Rightarrow> bool" where
  "filtered_out st \<longleftrightarrow> 95 \<in> set st \<or> re_match stem_pattern st = None"

definition resolve_date :: "(str, str) dict \<Rightarrow> str \<Rightarrow> str option" where
  "resolve_date metadata st =
     (case map_of metadata (U ''date'') of
        Some d \<Rightarrow>
          if strip d \<noteq> [] then Some (strip d)
          else (case re_search date_pattern st of
                  Some (pre, segs, r) \<Rightarrow> Some (concat segs) | None \<Rightarrow> None)
      | None \<Rightarrow>
          (case re_search date_pattern st of
             Some (pre, segs, r) \<Rightarrow> Some (concat segs) | None \<Rightarrow> None))"

text \<open>What the loop body of \<open>scan_obsidian_vault\<close> does with one file.\<close>

datatype outcome =
    Filtered
  | Unreadable
  | No_Date
  | No_Setlist
  | Show str show_data

definition make_show :: "str \<Rightarrow> (str, str) dict \<Rightarrow> (str, str) dict \<Rightarrow> str \<Rightarrow> str \<Rightarrow> show_data" where
  "make_show d metadata ss review file_path =
     \<lparr> date = Some d,
       venue = dict_get metadata (U ''venue'') (U ''Unknown Venue''),
       city = dict_get metadata (U ''city'') [],
       state = dict_get metadata (U ''state'') [],
       tour = dict_get metadata (U ''tour'') [],
       show_number = dict_get metadata (U ''show_number'') [],
       rating = dict_get metadata (U ''rating'') [],
       sets = Some ss,
       show_notes = (if review \<noteq> [] then [review] else []),
       source = U ''obsidian'',
       obsidian_file = file_path,
       url = Some [] \<rparr>"

definition scan_file :: "md_file \<Rightarrow> outcome" where
  "scan_file f =
     (if filtered_out (stem f) then Filtered
      else
        (case text_of f of
           None \<Rightarrow> Unreadable
         | Some content \<Rightarrow>
             (let metadata = parse_obsidian_frontmatter content
              in case resolve_date metadata (stem f) of
                   None \<Rightarrow> No_Date
                 | Some d \<Rightarrow>
                     if d = [] then No_Date
                     else
                       (let ss = parse_obsidian_setlist content
                        in if ss = [] then No_Setlist
                           else Show d (make_show d metadata ss
                                          (extract_review_section content) (path f))))))"

definition scan_step :: "(str, show_data) dict \<Rightarrow> md_file \<Rightarrow> (str, show_data) dict" where
  "scan_step obsidian_shows f =
     (case scan_file f of Show d s \<Rightarrow> dict_set obsidian_shows d s | _ \<Rightarrow> obsidian_shows)"

definition scan_obsidian_vault :: "md_file list option \<Rightarrow> (str, show_data) dict" where
  "scan_obsidian_vault vault =
     (case vault of None \<Rightarrow> [] | Some md_files \<Rightarrow> foldl scan_step [] md_files)"

section \<open>The song index\<close>

record appearance =
  app_date :: str
  app_url :: str
  app_set :: str

definition get_or :: "'a option \<Rightarrow> 'a \<Rightarrow> 'a" where
  "get_or x dflt = (case x of Some v \<Rightarrow> v | None \<Rightarrow> dflt)"

definition add_song ::
  "show_data \<Rightarrow> str \<Rightarrow> (str, appearance list) dict \<Rightarrow> str \<Rightarrow> (str, appearance list) dict" where
  "add_song show_d set_name song_db song =
     (let song_db = (if map_of song_db song = None then dict_set song_db song [] else song_db)
      in dict_set song_db song
           (dict_get song_db song [] @
              [\<lparr> app_date = get_or (date show_d) [], app_url = get_or (url show_d) [],
                 app_set = set_name \<rparr>]))"

definition add_set ::
  "show_data \<Rightarrow> (str, appearance list) dict \<Rightarrow> str \<times> str \<Rightarrow> (str, appearance list) dict" where
  "add_set show_d song_db e =
     foldl (add_song show_d (fst e)) song_db (parse_songs_from_setlist (snd e))"

definition add_show ::
  "(str, appearance list) dict \<Rightarrow> show_data \<Rightarrow> (str, appearance list) dict" where
  "add_show song_db show_d = foldl (add_set show_d) song_db (get_or (sets show_d) [])"

definition build_song_database :: "(str, show_data) dict \<Rightarrow> (str, appearance list) dict" where
  "build_song_database shows_db = foldl add_show [] (map snd shows_db)"

section \<open>Notions used in the statements and proofs\<close>

text \<open>
  What a successful match looks like, said without the search: \<open>fits its prev segs r\<close> holds
  when the texts \<open>segs\<close>, one per item, are each admissible for their item, and every anchor
  holds at the place where it stands; \<open>prev\<close> is the character before the match and \<open>r\<close> the
  text after it.
\<close>

fun seg_ok :: "item \<Rightarrow> str \<Rightarrow> bool" where
  "seg_ok (Rep p lo hi g) seg \<longleftrightarrow>
     list_all p seg \<and> lo \<le> length seg \<and> (case hi of None \<Rightarrow> True | Some h \<Rightarrow> length seg \<le> h)"
| "seg_ok (Alt ls) seg \<longleftrightarrow> seg \<in> set ls"
| "seg_ok (LitI l) seg \<longleftrightarrow> list_all2 ieq l seg"
| "seg_ok _ seg \<longleftrightarrow> seg = []"

fun anchor_ok :: "item \<Rightarrow> nat option \<Rightarrow> str \<Rightarrow> bool" where
  "anchor_ok Bol prev s \<longleftrightarrow> prev = None \<or> prev = Some 10"
| "anchor_ok BolS prev s \<longleftrightarrow> prev = None"
| "anchor_ok Eol prev s \<longleftrightarrow> s = [] \<or> hd s = 10"
| "anchor_ok EolS prev s \<longleftrightarrow> s = [] \<or> s = [10]"
| "anchor_ok _ prev s \<longleftrightarrow> True"

fun fits :: "item list \<Rightarrow> nat option \<Rightarrow> str list \<Rightarrow> str \<Rightarrow> bool" where
  "fits [] prev [] r \<longleftrightarrow> True"
| "fits (it # its) prev (seg # segs) r \<longleftrightarrow>
     seg_ok it seg \<and> anchor_ok it prev (seg @ concat segs @ r) \<and>
     fits its (last_char prev seg) segs r"
| "fits _ prev _ r \<longleftrightarrow> False"

text \<open>The lines that the loop of \<open>parse_obsidian_setlist\<close> visits.\<close>

definition setlist_lines :: "str \<Rightarrow> str list" where
  "setlist_lines content =
     (let lines = splitlines content
      in case setlist_region lines of
           None \<Rightarrow> []
         | Some (first, stop) \<Rightarrow> map (\<lambda>idx. lines ! idx) [first..<stop])"

text \<open>No two neighbouring characters of a string are both whitespace.\<close>

fun no_double_space :: "str \<Rightarrow> bool" where
  "no_double_space (c # d # s) \<longleftrightarrow> \<not> (is_space c \<and> is_space d) \<and> no_double_space (d # s)"
| "no_double_space _ \<longleftrightarrow> True"

text \<open>
  The date expected for a file that the filter of \<open>scan_obsidian_vault\<close> lets through: the
  stripped \<open>date\<close> entry of the frontmatter when there is one and it is not blank, and
  otherwise the first ten characters of the stem.
\<close>

definition spec_date :: "(str, str) dict \<Rightarrow> str \<Rightarrow> str" where
  "spec_date metadata st =
     (case map_of metadata (U ''date'') of
        Some v \<Rightarrow> if strip v \<noteq> [] then strip v else take 10 st
      | None \<Rightarrow> take 10 st)"

section \<open>Evaluating the model\<close>

text \<open>Below U+0660 the only decimal digits are the ASCII ones.\<close>

lemma is_digit_low: "c < 1632 \<Longrightarrow> is_digit c \<longleftrightarrow> 48 \<le> c \<and> c \<le> 57"
  unfolding is_digit_def nd_starts_def by (simp, arith)

lemmas pattern_defs = lit_def star_def plus_def lazy_star_def times_def
  none_of_def one_of_def any_char_def not_newline_def digit_or_colon_def
  paren_annotation_def bracket_annotation_def song_patterns_def transitions_def separators_def
  trailing_number_def whitespace_run_def piped_link_def plain_link_def frontmatter_block_def
  key_value_line_def date_pattern_def mvp_line_def section_header_def stem_pattern_def

declare match_here.simps [simp del] sub_from.simps [simp del] split_from.simps [simp del]
  finditer_from.simps [simp del]

lemmas eval_defs = U_def is_digit_low is_space_def ieq_def casefold_def pattern_defs
  re_search_def re_sub_def re_split_def re_match_def re_finditer_def
  strip_def lstrip_def rstrip_def rstrip_chars_def strip_chars_def group_def
  match_here.simps sub_from.simps split_from.simps finditer_from.simps

section \<open>Properties of the matcher\<close>

lemma push_seg_Some:
  "push_seg seg x = Some (segs, r) \<longleftrightarrow> (\<exists>segs'. x = Some (segs', r) \<and> segs = seg # segs')"
  by (cases x) auto

lemma grow_seg_Some:
  "grow_seg c x = Some (segs, r) \<longleftrightarrow>
     (\<exists>seg segs'. x = Some (seg # segs', r) \<and> segs = (c # seg) # segs')"
  by (cases "(c, x)" rule: grow_seg.cases) auto

lemma last_char_append: "last_char prev (a @ b) = last_char (last_char prev a) b"
  by (cases a; cases b) auto

lemma last_char_Cons: "last_char prev (c # s) = last_char (Some c) s"
  by (cases s) auto

lemma match_rep_Nil:
  "match_here (Rep p lo hi g # its) prev [] =
     (if lo = 0 then push_seg [] (match_here its prev []) else None)"
  by (subst match_here.simps) (simp split: option.splits)

lemma match_rep_Cons:
  "match_here (Rep p lo hi g # its) prev (c # s) =
     (if g then
        (case (if p c \<and> hi \<noteq> Some 0
               then grow_seg c (match_here (Rep p (lo - 1) (dec_bound hi) g # its) (Some c) s)
               else None) of
           Some r \<Rightarrow> Some r
         | None \<Rightarrow> if lo = 0 then push_seg [] (match_here its prev (c # s)) else None)
      else
        (case (if lo = 0 then push_seg [] (match_here its prev (c # s)) else None) of
           Some r \<Rightarrow> Some r
         | None \<Rightarrow>
             if p c \<and> hi \<noteq> Some 0
             then grow_seg c (match_here (Rep p (lo - 1) (dec_bound hi) g # its) (Some c) s)
             else None))"
  by (subst match_here.simps) (simp split: option.splits)

lemma match_alt_Cons:
  "match_here (Alt (l # ls) # its) prev s =
     (case (if take (length l) s = l
            then push_seg l (match_here its (last_char prev l) (drop (length l) s))
            else None) of
        Some r \<Rightarrow> Some r
      | None \<Rightarrow> match_here (Alt ls # its) prev s)"
  by (subst match_here.simps) simp

lemmas match_other = match_here.simps(1-6) match_here.simps(8)

lemma rep_more_sound:
  assumes ih: "\<And>segs r. match_here (Rep p (lo - 1) (dec_bound hi) g # its) (Some c) s' = Some (segs, r)
             \<Longrightarrow> fits (Rep p (lo - 1) (dec_bound hi) g # its) (Some c) segs r \<and> s' = concat segs @ r"
    and m: "(if p c \<and> hi \<noteq> Some 0
             then grow_seg c (match_here (Rep p (lo - 1) (dec_bound hi) g # its) (Some c) s')
             else None) = Some (segs, r)"
  shows "fits (Rep p lo hi g # its) prev segs r \<and> c # s' = concat segs @ r"
proof -
  from m obtain seg segs' where pc: "p c" "hi \<noteq> Some 0"
    and m': "match_here (Rep p (lo - 1) (dec_bound hi) g # its) (Some c) s' = Some (seg # segs', r)"
    and eq: "segs = (c # seg) # segs'"
    by (auto split: if_splits simp: grow_seg_Some)
  from ih[OF m'] have "fits (Rep p (lo - 1) (dec_bound hi) g # its) (Some c) (seg # segs') r"
    "s' = concat (seg # segs') @ r" by auto
  then show ?thesis using pc eq
    by (cases hi) (auto simp: last_char_Cons simp del: last_char.simps(2))
qed

lemma rep_stop_sound:
  assumes ih: "\<And>segs r. match_here its prev s = Some (segs, r)
             \<Longrightarrow> fits its prev segs r \<and> s = concat segs @ r"
    and m: "(if lo = 0 then push_seg [] (match_here its prev s) else None) = Some (segs, r)"
  shows "fits (Rep p lo hi g # its) prev segs r \<and> s = concat segs @ r"
proof -
  from m obtain segs' where lo: "lo = 0" and m': "match_here its prev s = Some (segs', r)"
    and eq: "segs = [] # segs'"
    by (auto split: if_splits simp: push_seg_Some)
  from ih[OF m'] show ?thesis using lo eq by (cases hi) auto
qed

lemma match_here_sound:
  "match_here its prev s = Some (segs, r) \<Longrightarrow> fits its prev segs r \<and> s = concat segs @ r"
proof (induction "sum_list (map item_size its) + length s" arbitrary: its prev s segs r
    rule: less_induct)
  case less
  note ih = less.hyps
  note m = less.prems
  show ?case
  proof (cases its)
    case Nil
    with m show ?thesis by (simp add: match_here.simps)
  next
    case (Cons it its')
    show ?thesis
    proof (cases it)
      case (Rep p lo hi g)
      have ih_stop: "\<And>segs r. match_here its' prev s = Some (segs, r)
             \<Longrightarrow> fits its' prev segs r \<and> s = concat segs @ r"
        by (rule ih) (simp add: Cons Rep)
      show ?thesis
      proof (cases s)
        case Nil
        with m Cons Rep have "(if lo = 0 then push_seg [] (match_here its' prev s) else None) = Some (segs, r)"
          by (simp add: match_rep_Nil split: if_splits)
        from rep_stop_sound[OF ih_stop this] show ?thesis by (simp add: Cons Rep)
      next
        case (Cons c s')
        have ih_more: "\<And>segs r. match_here (Rep p (lo - 1) (dec_bound hi) g # its') (Some c) s' = Some (segs, r)
             \<Longrightarrow> fits (Rep p (lo - 1) (dec_bound hi) g # its') (Some c) segs r \<and> s' = concat segs @ r"
          by (rule ih) (simp add: \<open>its = it # its'\<close> Rep Cons)
        from m have "(if p c \<and> hi \<noteq> Some 0
             then grow_seg c (match_here (Rep p (lo - 1) (dec_bound hi) g # its') (Some c) s')
             else None) = Some (segs, r) \<or>
           (if lo = 0 then push_seg [] (match_here its' prev s) else None) = Some (segs, r)"
          unfolding \<open>its = it # its'\<close> Rep Cons
          by (simp add: match_rep_Cons split: if_splits option.splits)
        then show ?thesis
          using rep_more_sound[OF ih_more, of segs r prev] rep_stop_sound[OF ih_stop, of lo segs r p hi g]
          unfolding \<open>its = it # its'\<close> Rep Cons by blast
      qed
    next
      case (Alt ls)
      show ?thesis
      proof (cases ls)
        case Nil
        with m Cons Alt show ?thesis by (simp add: match_here.simps)
      next
        case (Cons l ls')
        have ih_rest: "\<And>segs r. match_here (Alt ls' # its') prev s = Some (segs, r)
             \<Longrightarrow> fits (Alt ls' # its') prev segs r \<and> s = concat segs @ r"
          by (rule ih) (simp add: \<open>its = it # its'\<close> Alt Cons)
        have ih_here: "\<And>segs r. match_here its' (last_char prev l) (drop (length l) s) = Some (segs, r)
             \<Longrightarrow> fits its' (last_char prev l) segs r \<and> drop (length l) s = concat segs @ r"
          by (rule ih) (simp add: \<open>its = it # its'\<close> Alt Cons)
        from m have "(take (length l) s = l \<and>
              push_seg l (match_here its' (last_char prev l) (drop (length l) s)) = Some (segs, r)) \<or>
            match_here (Alt ls' # its') prev s = Some (segs, r)"
          unfolding \<open>its = it # its'\<close> Alt Cons
          by (simp add: match_alt_Cons split: if_splits option.splits)
        then show ?thesis
        proof
          assume a: "take (length l) s = l \<and>
              push_seg l (match_here its' (last_char prev l) (drop (length l) s)) = Some (segs, r)"
          then obtain segs' where m': "match_here its' (last_char prev l) (drop (length l) s) = Some (segs', r)"
            and eq: "segs = l # segs'" by (auto simp: push_seg_Some)
          have "s = l @ drop (length l) s" using a by (metis append_take_drop_id)
          with ih_here[OF m'] eq show ?thesis
            unfolding \<open>its = it # its'\<close> Alt Cons by auto
        next
          assume "match_here (Alt ls' # its') prev s = Some (segs, r)"
          from ih_rest[OF this] show ?thesis
            unfolding \<open>its = it # its'\<close> Alt Cons by (cases segs) auto
        qed
      qed
    next
      case (LitI l)
      have ih_here: "\<And>segs r. match_here its' (last_char prev (take (length l) s)) (drop (length l) s) = Some (segs, r)
             \<Longrightarrow> fits its' (last_char prev (take (length l) s)) segs r \<and> drop (length l) s = concat segs @ r"
        by (rule ih) (simp add: Cons LitI)
      from m obtain segs' where c: "length l \<le> length s" "list_all2 ieq l (take (length l) s)"
        and m': "match_here its' (last_char prev (take (length l) s)) (drop (length l) s) = Some (segs', r)"
        and eq: "segs = take (length l) s # segs'"
        unfolding Cons LitI
        by (auto simp: match_other push_seg_Some split: if_splits)
      have "s = take (length l) s @ drop (length l) s" by simp
      with ih_here[OF m'] c eq show ?thesis unfolding Cons LitI
        by (metis anchor_ok.simps(7) append.assoc concat.simps(2) fits.simps(2) seg_ok.simps(3))
    next
      case Bol
      have ih_here: "\<And>segs r. match_here its' prev s = Some (segs, r)
             \<Longrightarrow> fits its' prev segs r \<and> s = concat segs @ r"
        by (rule ih) (simp add: Cons Bol)
      from m ih_here show ?thesis unfolding Cons Bol
        by (auto simp: match_other push_seg_Some split: if_splits)
    next
      case Eol
      have ih_here: "\<And>segs r. match_here its' prev s = Some (segs, r)
             \<Longrightarrow> fits its' prev segs r \<and> s = concat segs @ r"
        by (rule ih) (simp add: Cons Eol)
      from m ih_here show ?thesis unfolding Cons Eol
        by (auto simp: match_other push_seg_Some split: if_splits)
    next
      case BolS
      have ih_here: "\<And>segs r. match_here its' prev s = Some (segs, r)
             \<Longrightarrow> fits its' prev segs r \<and> s = concat segs @ r"
        by (rule ih) (simp add: Cons BolS)
      from m ih_here show ?thesis unfolding Cons BolS
        by (auto simp: match_other push_seg_Some split: if_splits)
    next
      case EolS
      have ih_here: "\<And>segs r. match_here its' prev s = Some (segs, r)
             \<Longrightarrow> fits its' prev segs r \<and> s = concat segs @ r"
        by (rule ih) (simp add: Cons EolS)
      from m ih_here show ?thesis unfolding Cons EolS
        by (auto simp: match_other push_seg_Some split: if_splits)
    qed
  qed
qed

text \<open>A repetition with an exact count and a single literal leave no choice.\<close>

lemma match_exact:
  "match_here (Rep p n (Some n) True # its) prev s =
     (if n \<le> length s \<and> list_all p (take n s)
      then push_seg (take n s) (match_here its (last_char prev (take n s)) (drop n s))
      else None)"
proof (induction n arbitrary: prev s)
  case 0
  show ?case by (cases s) (simp_all add: match_rep_Nil match_rep_Cons split: option.splits)
next
  case (Suc n)
  show ?case
  proof (cases s)
    case Nil
    then show ?thesis by (simp add: match_rep_Nil)
  next
    case (Cons c s')
    have g: "grow_seg c (push_seg seg x) = push_seg (c # seg) x" for seg x
      by (cases x) auto
    show ?thesis unfolding Cons
      by (simp add: match_rep_Cons Suc.IH g last_char_Cons split: option.splits del: last_char.simps(2))
  qed
qed

lemma match_single:
  "match_here (Alt [l] # its) prev s =
     (if take (length l) s = l
      then push_seg l (match_here its (last_char prev l) (drop (length l) s))
      else None)"
  by (simp add: match_alt_Cons match_other split: option.splits)

section \<open>The tokenizer on the documented example\<close>

text \<open>
  Claim C7. The song tokenizer applied to \<open>Song A -> Song B, Song C (12:34)\<close> returns
  exactly the three names \<open>Song A\<close>, \<open>Song B\<close>, \<open>Song C\<close>: the arrow and the comma both
  separate songs, and the trailing time annotation in parentheses is removed. The proof
  follows the function step by step: nothing is protected, the arrow becomes a comma, the
  text splits into three fragments, and the cleanup strips the annotation of the last one.
\<close>

theorem song_tokenizer_example:
  "parse_songs_from_setlist (U ''Song A -> Song B, Song C (12:34)'') =
     [U ''Song A'', U ''Song B'', U ''Song C'']"
proof -
  let ?s = "U ''Song A -> Song B, Song C (12:34)''"
  have nonblank: "\<not> (?s = [] \<or> strip ?s = [])"
    by (simp add: eval_defs)
  have protected: "protect ?s = (?s, [])"
    by (simp add: eval_defs protect_def protect_song_def SONGS_WITH_COMMAS_def placeholder_def)
  have commas: "re_sub transitions (\<lambda>_. U '','') ?s = U ''Song A , Song B, Song C (12:34)''"
    by (simp add: eval_defs)
  have parts: "split_parts (U ''Song A , Song B, Song C (12:34)'') =
      [U ''Song A'', U ''Song B'', U ''Song C (12:34)'']"
    by (simp add: eval_defs split_parts_def)
  have songs: "collect_songs [] [U ''Song A'', U ''Song B'', U ''Song C (12:34)''] =
      [U ''Song A'', U ''Song B'', U ''Song C'']"
    by (simp add: eval_defs clean_song_name_def)
  show ?thesis
    unfolding parse_songs_from_setlist_def
    by (simp only: nonblank protected commas parts songs if_False Let_def split_conv)
qed

section \<open>The frontmatter parser on the documented example\<close>

text \<open>
  Claim C8. The frontmatter parser applied to the five lines \<open>---\<close>, \<open>date: 2023-05-01\<close>,
  \<open>venue: The Hall\<close>, \<open>---\<close>, \<open>body\<close> returns exactly the mapping with the two entries
  \<open>date\<close> \<open>\<mapsto>\<close> \<open>2023-05-01\<close> and \<open>venue\<close> \<open>\<mapsto>\<close> \<open>The Hall\<close>.
\<close>

theorem frontmatter_example:
  "parse_obsidian_frontmatter
     (U ''---\<newline>date: 2023-05-01\<newline>venue: The Hall\<newline>---\<newline>body'') =
     [(U ''date'', U ''2023-05-01''), (U ''venue'', U ''The Hall'')]"
  by (simp add: eval_defs parse_obsidian_frontmatter_def frontmatter_entry_def lower_is_date_def
      ascii_lower_def)

section \<open>Segmentation with exactly two markers\<close>

lemma marker_lines_bound: "i \<in> set (marker_lines lines) \<Longrightarrow> i < length lines"
  by (simp add: marker_lines_def)

lemma map_nth_from: "map (\<lambda>idx. xs ! idx) [n..<length xs] = drop n xs"
  by (rule nth_equalityI) auto

text \<open>
  Claim C5, as amended. For every document whose lines contain exactly two marker lines,
  the setlist region runs from the line after the second marker to the end of the
  document, so the loop visits exactly the lines behind the second marker (none at all
  when that marker is the last line), and the review text is empty.
\<close>

theorem two_markers_region:
  assumes "length (marker_lines (splitlines content)) = 2"
  shows "setlist_region (splitlines content) =
           Some (marker_lines (splitlines content) ! 1 + 1, length (splitlines content)) \<and>
         marker_lines (splitlines content) ! 1 < length (splitlines content) \<and>
         setlist_lines content =
           drop (marker_lines (splitlines content) ! 1 + 1) (splitlines content) \<and>
         extract_review_section content = []"
proof -
  let ?lines = "splitlines content"
  let ?markers = "marker_lines ?lines"
  have region: "setlist_region ?lines = Some (?markers ! 1 + 1, length ?lines)"
    using assms by (simp add: setlist_region_def)
  have "?markers ! 1 \<in> set ?markers"
    using assms by (intro nth_mem) simp
  then have bound: "?markers ! 1 < length ?lines"
    by (rule marker_lines_bound)
  have visited: "setlist_lines content = drop (?markers ! 1 + 1) ?lines"
    by (simp add: setlist_lines_def Let_def region map_nth_from del: upt_Suc)
  have review: "extract_review_section content = []"
    using assms by (simp add: extract_review_section_def)
  from region bound visited review show ?thesis by simp
qed

text \<open>
  The amended claim at a document with two markers followed by one set line: the region
  is that line, and there is no review.
\<close>

theorem two_markers_region_witness:
  "length (marker_lines (splitlines (U ''---\<newline>---\<newline>**Set 1:** Song A''))) = 2 \<and>
   setlist_lines (U ''---\<newline>---\<newline>**Set 1:** Song A'') = [U ''**Set 1:** Song A''] \<and>
   extract_review_section (U ''---\<newline>---\<newline>**Set 1:** Song A'') = []"
proof -
  let ?doc = "U ''---\<newline>---\<newline>**Set 1:** Song A''"
  have lines: "splitlines ?doc = [U ''---'', U ''---'', U ''**Set 1:** Song A'']"
    by (simp add: eval_defs is_linebreak_def)
  have markers: "marker_lines [U ''---'', U ''---'', U ''**Set 1:** Song A''] = [0, 1]"
    by (simp add: eval_defs marker_lines_def upt_rec)
  have two: "length (marker_lines (splitlines ?doc)) = 2"
    by (simp add: lines markers)
  from two_markers_region [OF two] two show ?thesis
    by (simp add: lines markers)
qed

text \<open>
  Claim C5 as stated fails: the document that consists of two marker lines and nothing
  else has exactly two markers, and its setlist region holds no line.
\<close>

theorem two_markers_empty_region:
  "length (marker_lines (splitlines (U ''---\<newline>---''))) = 2 \<and>
   setlist_lines (U ''---\<newline>---'') = []"
proof -
  let ?doc = "U ''---\<newline>---''"
  have lines: "splitlines ?doc = [U ''---'', U ''---'']"
    by (simp add: eval_defs is_linebreak_def)
  have markers: "marker_lines [U ''---'', U ''---''] = [0, 1]"
    by (simp add: eval_defs marker_lines_def upt_rec)
  show ?thesis
    by (simp add: setlist_lines_def setlist_region_def Let_def lines markers)
qed

section \<open>The song index of a single show\<close>

lemma map_of_dict_set: "map_of (dict_set d k v) = (map_of d)(k \<mapsto> v)"
  by (induction d) (auto simp: fun_eq_iff)

lemma dict_get_dict_set:
  "dict_get (dict_set d k v) x dflt = (if x = k then v else dict_get d x dflt)"
  by (simp add: dict_get_def map_of_dict_set)

text \<open>One appended appearance, then a whole set, then all sets of a show.\<close>

lemma dict_get_add_song:
  "dict_get (add_song show_d set_name song_db song) x [] =
     dict_get song_db x [] @
       (if x = song
        then [\<lparr>app_date = get_or (date show_d) [], app_url = get_or (url show_d) [],
               app_set = set_name\<rparr>]
        else [])"
  by (auto simp: add_song_def Let_def dict_get_dict_set dict_get_def map_of_dict_set)

lemma absent_add_song:
  "map_of (add_song show_d set_name song_db song) x = None \<longleftrightarrow>
     x \<noteq> song \<and> map_of song_db x = None"
  by (auto simp: add_song_def Let_def map_of_dict_set)

lemma dict_get_add_songs:
  "dict_get (foldl (add_song show_d set_name) song_db songs) x [] =
     dict_get song_db x [] @
       replicate (count_list songs x)
         \<lparr>app_date = get_or (date show_d) [], app_url = get_or (url show_d) [],
          app_set = set_name\<rparr>"
  by (induction songs arbitrary: song_db) (auto simp: dict_get_add_song)

lemma absent_add_songs:
  "map_of (foldl (add_song show_d set_name) song_db songs) x = None \<longleftrightarrow>
     count_list songs x = 0 \<and> map_of song_db x = None"
  by (induction songs arbitrary: song_db) (auto simp: absent_add_song)

lemma dict_get_add_sets:
  "dict_get (foldl (add_set show_d) song_db ss) x [] =
     dict_get song_db x [] @
       concat (map (\<lambda>(set_name, set_content).
                 replicate (count_list (parse_songs_from_setlist set_content) x)
                   \<lparr>app_date = get_or (date show_d) [], app_url = get_or (url show_d) [],
                    app_set = set_name\<rparr>) ss)"
  by (induction ss arbitrary: song_db) (auto simp: add_set_def dict_get_add_songs)

lemma absent_add_sets:
  "map_of (foldl (add_set show_d) song_db ss) x = None \<longleftrightarrow>
     sum_list (map (\<lambda>(set_name, set_content).
                     count_list (parse_songs_from_setlist set_content) x) ss) = 0 \<and>
     map_of song_db x = None"
  by (induction ss arbitrary: song_db) (auto simp: add_set_def absent_add_songs)

lemma length_concat_replicate:
  "length (concat (map (\<lambda>(a, b). replicate (f a b) (g a b)) xs)) =
     sum_list (map (\<lambda>(a, b). f a b) xs)"
  by (induction xs) auto

text \<open>
  Claim C6. For a show database that holds exactly one show, the song index built from it
  gives every song name the list of appearances that consists, set after set in the order
  of the show's sets, of one appearance for each time the tokenizer emits that name for
  the set, each carrying the show's date and url and the label of that set. So the number
  of appearances of a name is the number of times the tokenizer emits it across all sets
  of the show, and a name is a key of the index exactly when that number is not zero.
\<close>

theorem song_index_single_show:
  "dict_get (build_song_database [(key, show_d)]) song [] =
     concat (map (\<lambda>(set_name, set_content).
               replicate (count_list (parse_songs_from_setlist set_content) song)
                 \<lparr>app_date = get_or (date show_d) [], app_url = get_or (url show_d) [],
                  app_set = set_name\<rparr>) (get_or (sets show_d) [])) \<and>
   length (dict_get (build_song_database [(key, show_d)]) song []) =
     sum_list (map (\<lambda>(set_name, set_content).
                 count_list (parse_songs_from_setlist set_content) song)
               (get_or (sets show_d) [])) \<and>
   (map_of (build_song_database [(key, show_d)]) song = None) =
     (sum_list (map (\<lambda>(set_name, set_content).
                 count_list (parse_songs_from_setlist set_content) song)
               (get_or (sets show_d) [])) = 0)"
  by (simp add: build_song_database_def add_show_def dict_get_add_sets absent_add_sets
      length_concat_replicate) (simp add: dict_get_def)

section \<open>The shape of the names the tokenizer returns\<close>

text \<open>A greedy unbounded repetition that ends the pattern takes the whole run.\<close>

lemma match_greedy_run:
  "match_here [Rep p lo None True] prev s =
     (if lo \<le> length (takeWhile p s) then Some ([takeWhile p s], dropWhile p s) else None)"
proof (induction s arbitrary: lo prev)
  case Nil
  show ?case by (simp add: match_rep_Nil match_other)
next
  case (Cons c s)
  show ?case
  proof (cases "p c")
    case True
    then show ?thesis
      by (simp add: match_rep_Cons Cons.IH) arith
  next
    case False
    then show ?thesis
      by (simp add: match_rep_Cons match_other)
  qed
qed

lemma no_double_space_Cons:
  "no_double_space (c # s) \<longleftrightarrow>
     (s = [] \<or> \<not> (is_space c \<and> is_space (hd s))) \<and> no_double_space s"
  by (cases s) auto

text \<open>The substitution of \<open>\s+\<close>, one step at a time.\<close>

lemma collapse_Nil: "sub_from whitespace_run repl prev [] = []"
  by (subst sub_from.simps) (simp add: whitespace_run_def plus_def match_greedy_run)

lemma collapse_Cons:
  "sub_from whitespace_run repl prev (c # s) =
     (if is_space c
      then repl [c # takeWhile is_space s] @
           sub_from whitespace_run repl (last_char prev (c # takeWhile is_space s))
             (dropWhile is_space s)
      else c # sub_from whitespace_run repl (Some c) s)"
proof -
  have "length (dropWhile is_space s) < Suc (length s)"
    by (simp add: length_dropWhile_le less_Suc_eq_le)
  then show ?thesis
    by (subst sub_from.simps) (simp add: whitespace_run_def plus_def match_greedy_run)
qed

text \<open>
  Replacing every whitespace run by one space leaves no two neighbouring whitespace
  characters, and keeps the string non-empty and its two ends of the same kind.
\<close>

lemma collapse_tidy:
  "no_double_space (sub_from whitespace_run (\<lambda>_. [32]) prev s) \<and>
   (sub_from whitespace_run (\<lambda>_. [32]) prev s = [] \<longleftrightarrow> s = []) \<and>
   (s \<noteq> [] \<longrightarrow>
      (is_space (hd (sub_from whitespace_run (\<lambda>_. [32]) prev s)) \<longleftrightarrow> is_space (hd s)) \<and>
      (is_space (last (sub_from whitespace_run (\<lambda>_. [32]) prev s)) \<longleftrightarrow> is_space (last s)))"
proof (induction "length s" arbitrary: s prev rule: less_induct)
  case less
  show ?case
  proof (cases s)
    case Nil
    then show ?thesis by (simp add: collapse_Nil)
  next
    case (Cons c s')
    show ?thesis
    proof (cases "is_space c")
      case False
      have ih: "no_double_space (sub_from whitespace_run (\<lambda>_. [32]) (Some c) s') \<and>
         (sub_from whitespace_run (\<lambda>_. [32]) (Some c) s' = [] \<longleftrightarrow> s' = []) \<and>
         (s' \<noteq> [] \<longrightarrow>
           (is_space (hd (sub_from whitespace_run (\<lambda>_. [32]) (Some c) s')) \<longleftrightarrow>
              is_space (hd s')) \<and>
           (is_space (last (sub_from whitespace_run (\<lambda>_. [32]) (Some c) s')) \<longleftrightarrow>
              is_space (last s')))"
        by (rule less.hyps) (simp add: Cons)
      from False ih show ?thesis
        unfolding Cons by (simp add: collapse_Cons no_double_space_Cons)
    next
      case True
      let ?t = "dropWhile is_space s'"
      let ?prev = "last_char prev (c # takeWhile is_space s')"
      have "length ?t < length s"
        by (simp add: Cons length_dropWhile_le less_Suc_eq_le)
      then have ih: "no_double_space (sub_from whitespace_run (\<lambda>_. [32]) ?prev ?t) \<and>
         (sub_from whitespace_run (\<lambda>_. [32]) ?prev ?t = [] \<longleftrightarrow> ?t = []) \<and>
         (?t \<noteq> [] \<longrightarrow>
           (is_space (hd (sub_from whitespace_run (\<lambda>_. [32]) ?prev ?t)) \<longleftrightarrow>
              is_space (hd ?t)) \<and>
           (is_space (last (sub_from whitespace_run (\<lambda>_. [32]) ?prev ?t)) \<longleftrightarrow>
              is_space (last ?t)))"
        by (rule less.hyps)
      have sp: "is_space 32" by (simp add: is_space_def)
      have hd_t: "?t \<noteq> [] \<Longrightarrow> \<not> is_space (hd ?t)"
        by (rule hd_dropWhile)
      have last_t: "?t \<noteq> [] \<Longrightarrow> last ?t = last s'"
        by (metis last_appendR takeWhile_dropWhile_id)
      have all_sp: "?t = [] \<Longrightarrow> is_space (last (c # s'))"
        using True by (auto simp: dropWhile_eq_Nil_conv)
      from True ih sp hd_t last_t all_sp show ?thesis
        unfolding Cons by (auto simp: collapse_Cons no_double_space_Cons)
    qed
  qed
qed

lemma rstrip_split: "rstrip s @ rev (takeWhile is_space (rev s)) = s"
proof -
  have "rev (takeWhile is_space (rev s) @ dropWhile is_space (rev s)) = s"
    by simp
  then show ?thesis unfolding rstrip_def rev_append .
qed

lemma strip_ends:
  assumes "strip s \<noteq> []"
  shows "\<not> is_space (hd (strip s)) \<and> \<not> is_space (last (strip s))"
proof -
  let ?a = "lstrip s"
  from assms have a: "?a \<noteq> []" by (auto simp: strip_def rstrip_def)
  then have hd_a: "\<not> is_space (hd ?a)"
    unfolding lstrip_def by (rule hd_dropWhile)
  have "hd (rstrip ?a @ rev (takeWhile is_space (rev ?a))) = hd (rstrip ?a)"
    using assms by (simp add: strip_def)
  then have "hd (strip s) = hd ?a"
    by (simp add: rstrip_split strip_def)
  moreover have "\<not> is_space (last (strip s))"
    using assms unfolding strip_def rstrip_def
    by (simp add: last_rev hd_dropWhile)
  ultimately show ?thesis using hd_a by simp
qed

text \<open>The cleanup ends with that substitution on a stripped string.\<close>

lemma clean_song_name_tidy:
  assumes "clean_song_name part \<noteq> []"
  shows "\<not> is_space (hd (clean_song_name part)) \<and> \<not> is_space (last (clean_song_name part)) \<and>
         no_double_space (clean_song_name part)"
proof -
  obtain t where c: "clean_song_name part = sub_from whitespace_run (\<lambda>_. [32]) None (strip t)"
    by (simp add: clean_song_name_def Let_def re_sub_def U_def)
  from assms c collapse_tidy [of None "strip t"] have ne: "strip t \<noteq> []"
    by auto
  from strip_ends [OF ne] collapse_tidy [of None "strip t"] ne show ?thesis
    unfolding c by simp
qed

text \<open>Every value of the replacement table is one of the protected titles.\<close>

lemma protect_variants_values:
  "map_of (snd (protect_variants patterns ph song st)) k = Some v \<Longrightarrow>
     v = song \<or> map_of (snd st) k = Some v"
proof (induction patterns)
  case Nil
  then show ?case by (cases st) simp
next
  case (Cons pattern patterns)
  then show ?case
    by (cases st) (auto simp: map_of_dict_set split: if_splits)
qed

lemma protect_values:
  "map_of (snd (foldl protect_song st es)) k = Some v \<Longrightarrow>
     v \<in> snd ` set es \<or> map_of (snd st) k = Some v"
proof (induction es arbitrary: st)
  case Nil
  then show ?case by simp
next
  case (Cons e es)
  from Cons.IH [OF Cons.prems [simplified]]
  show ?case
    by (auto simp: protect_song_def dest: protect_variants_values)
qed

lemma replacements_are_titles:
  assumes "map_of (snd (protect set_content)) k = Some v"
  shows "v \<in> set SONGS_WITH_COMMAS"
proof -
  from protect_values [OF assms [unfolded protect_def]]
  have "v \<in> snd ` set (enumerate 0 SONGS_WITH_COMMAS)" by simp
  then show ?thesis by (metis list.set_map map_snd_enumerate)
qed

lemma titles_tidy:
  assumes "v \<in> set SONGS_WITH_COMMAS"
  shows "v \<noteq> [] \<and> \<not> is_space (hd v) \<and> \<not> is_space (last v) \<and> no_double_space v"
  using assms by (auto simp: SONGS_WITH_COMMAS_def U_def is_space_def)

lemma collect_songs_elements:
  "x \<in> set (collect_songs replacements parts) \<Longrightarrow>
     (\<exists>k. map_of replacements k = Some x) \<or> (\<exists>part. x = clean_song_name part \<and> x \<noteq> [])"
  by (induction parts) (auto split: option.splits if_splits)

text \<open>
  Claim C9. For every input string, every element of the list that the song tokenizer
  returns is a non-empty string that neither starts nor ends with a whitespace character
  and has no two consecutive whitespace characters.
\<close>

theorem tokenizer_names_tidy:
  "\<forall>x \<in> set (parse_songs_from_setlist set_content).
     x \<noteq> [] \<and> \<not> is_space (hd x) \<and> \<not> is_space (last x) \<and> no_double_space x"
proof
  fix x
  assume x: "x \<in> set (parse_songs_from_setlist set_content)"
  obtain protected_content replacements
    where p: "protect set_content = (protected_content, replacements)"
    by (cases "protect set_content")
  from x obtain parts where "x \<in> set (collect_songs replacements parts)"
    by (auto simp: parse_songs_from_setlist_def p Let_def split: if_splits)
  then consider k where "map_of replacements k = Some x"
    | part where "x = clean_song_name part" "x \<noteq> []"
    using collect_songs_elements by blast
  then show "x \<noteq> [] \<and> \<not> is_space (hd x) \<and> \<not> is_space (last x) \<and> no_double_space x"
  proof cases
    case 1
    then have "map_of (snd (protect set_content)) k = Some x" by (simp add: p)
    then show ?thesis by (intro titles_tidy replacements_are_titles)
  next
    case 2
    with clean_song_name_tidy [of part] show ?thesis by simp
  qed
qed

text \<open>The claim at an input with a doubled blank inside a name.\<close>

theorem tokenizer_names_tidy_witness:
  "U ''Song A'' \<in> set (parse_songs_from_setlist (U ''Song  A ; B'')) \<and>
   U ''Song A'' \<noteq> [] \<and> \<not> is_space (hd (U ''Song A'')) \<and> \<not> is_space (last (U ''Song A'')) \<and>
   no_double_space (U ''Song A'')"
proof -
  let ?s = "U ''Song  A ; B''"
  have nonblank: "\<not> (?s = [] \<or> strip ?s = [])"
    by (simp add: eval_defs)
  have protected: "protect ?s = (?s, [])"
    by (simp add: eval_defs protect_def protect_song_def SONGS_WITH_COMMAS_def placeholder_def)
  have commas: "re_sub transitions (\<lambda>_. U '','') ?s = ?s"
    by (simp add: eval_defs)
  have parts: "split_parts ?s = [U ''Song  A'', U ''B'']"
    by (simp add: eval_defs split_parts_def)
  have songs: "collect_songs [] [U ''Song  A'', U ''B''] = [U ''Song A'', U ''B'']"
    by (simp add: eval_defs clean_song_name_def)
  have "parse_songs_from_setlist ?s = [U ''Song A'', U ''B'']"
    unfolding parse_songs_from_setlist_def
    by (simp only: nonblank protected commas parts songs if_False Let_def split_conv)
  then have mem: "U ''Song A'' \<in> set (parse_songs_from_setlist ?s)"
    by simp
  from tokenizer_names_tidy [of ?s] mem show ?thesis
    by blast
qed


section \<open>Files that pass the filename filter\<close>

text \<open>
  A stem that the filter lets through is a date of ten characters, followed by nothing or
  by one line feed, since \<open>$\<close> also holds before a final line feed.
\<close>

lemma stem_match:
  assumes "re_match stem_pattern st \<noteq> None"
  shows "match_here date_pattern None st =
           Some ([take 4 st, U ''-'', take 2 (drop 5 st), U ''-'', take 2 (drop 8 st)], drop 10 st)
         \<and> 10 \<le> length st \<and> (drop 10 st = [] \<or> drop 10 st = [10])"
  using assms
  by (simp add: re_match_def stem_pattern_def date_pattern_def times_def lit_def U_def
      match_exact match_single match_other split: if_splits)

lemma stem_date:
  assumes "\<not> filtered_out st"
  shows "re_search date_pattern st = Some ([], [take 4 st, U ''-'', take 2 (drop 5 st), U ''-'', take 2 (drop 8 st)], drop 10 st)"
    and "concat [take 4 st, U ''-'', take 2 (drop 5 st), U ''-'', take 2 (drop 8 st)] = take 10 st"
    and "take 10 st \<noteq> []"
    and "st = take 10 st \<or> st = take 10 st @ [10]"
proof -
  from assms have m: "re_match stem_pattern st \<noteq> None" by (simp add: filtered_out_def)
  note sm = stem_match[OF m]
  let ?segs = "[take 4 st, U ''-'', take 2 (drop 5 st), U ''-'', take 2 (drop 8 st)]"
  from sm have mh: "match_here date_pattern None st = Some (?segs, drop 10 st)" by simp
  show "re_search date_pattern st = Some ([], ?segs, drop 10 st)"
    unfolding re_search_def using mh by (cases st) simp_all
  from match_here_sound[OF mh] have "st = concat ?segs @ drop 10 st" by simp
  moreover from sm have "10 \<le> length st" by simp
  then have "length (concat ?segs) = 10" by (simp add: U_def)
  ultimately show c: "concat ?segs = take 10 st"
    by (metis append_eq_conv_conj)
  from sm show "take 10 st \<noteq> []" by auto
  from sm show "st = take 10 st \<or> st = take 10 st @ [10]"
    by (metis append_take_drop_id append_Nil2)
qed

lemma resolve_date_filtered:
  assumes "\<not> filtered_out st"
  shows "resolve_date metadata st = Some (spec_date metadata st)" and "spec_date metadata st \<noteq> []"
  using stem_date(1)[OF assms] stem_date(2)[OF assms] stem_date(3)[OF assms]
  by (simp_all add: resolve_date_def spec_date_def split: option.splits)

text \<open>
  Claim C10, as amended. For every file that passes the filename filter and can be read,
  a date always resolves and is not empty: it is the stripped frontmatter \<open>date\<close> when
  that entry is present and not blank, and otherwise the first ten characters of the
  stem, which are the whole stem unless the stem ends with a line feed. So the file is
  never skipped for want of a date, and when its section map is not empty it yields the
  show record built from that date.
\<close>

theorem filtered_file_resolves:
  assumes "\<not> filtered_out (stem f)" and "text_of f = Some content"
  shows "resolve_date (parse_obsidian_frontmatter content) (stem f)
           = Some (spec_date (parse_obsidian_frontmatter content) (stem f))
         \<and> spec_date (parse_obsidian_frontmatter content) (stem f) \<noteq> []
         \<and> (stem f = take 10 (stem f) \<or> stem f = take 10 (stem f) @ [10])
         \<and> scan_file f \<noteq> No_Date
         \<and> (parse_obsidian_setlist content \<noteq> [] \<longrightarrow>
              scan_file f = Show (spec_date (parse_obsidian_frontmatter content) (stem f))
                (make_show (spec_date (parse_obsidian_frontmatter content) (stem f))
                   (parse_obsidian_frontmatter content) (parse_obsidian_setlist content)
                   (extract_review_section content) (path f)))"
  using assms resolve_date_filtered[OF assms(1), of "parse_obsidian_frontmatter content"]
    stem_date(4)[OF assms(1)]
  by (simp add: scan_file_def Let_def)

text \<open>
  The amended claim at a file named \<open>2023-05-01\<close> whose frontmatter gives another date:
  the show carries the date of the frontmatter.
\<close>

theorem filtered_file_resolves_witness:
  "\<not> filtered_out (U ''2023-05-01'') \<and>
   parse_obsidian_setlist (U ''---\<newline>date: 2023-05-02\<newline>---\<newline>**Set 1:** Song A'') \<noteq> [] \<and>
   scan_file \<lparr>stem = U ''2023-05-01'', path = U ''2023-05-01.md'',
              text_of = Some (U ''---\<newline>date: 2023-05-02\<newline>---\<newline>**Set 1:** Song A'')\<rparr> =
     Show (U ''2023-05-02'')
       (make_show (U ''2023-05-02'') [(U ''date'', U ''2023-05-02'')] [(U ''Set 1'', U ''Song A'')] []
          (U ''2023-05-01.md''))"
proof -
  let ?doc = "U ''---\<newline>date: 2023-05-02\<newline>---\<newline>**Set 1:** Song A''"
  let ?f = "\<lparr>stem = U ''2023-05-01'', path = U ''2023-05-01.md'', text_of = Some ?doc\<rparr>"
  have kept: "\<not> filtered_out (stem ?f)"
    by (simp add: eval_defs filtered_out_def)
  have readable: "text_of ?f = Some ?doc"
    by simp
  have metadata: "parse_obsidian_frontmatter ?doc = [(U ''date'', U ''2023-05-02'')]"
    by (simp add: eval_defs parse_obsidian_frontmatter_def frontmatter_entry_def lower_is_date_def
        ascii_lower_def)
  have lines: "splitlines ?doc = [U ''---'', U ''date: 2023-05-02'', U ''---'', U ''**Set 1:** Song A'']"
    by (simp add: eval_defs is_linebreak_def)
  have markers: "marker_lines [U ''---'', U ''date: 2023-05-02'', U ''---'', U ''**Set 1:** Song A''] = [0, 2]"
    by (simp add: eval_defs marker_lines_def upt_rec)
  have header: "setlist_line [U ''---'', U ''date: 2023-05-02'', U ''---'', U ''**Set 1:** Song A''] [] 3 =
      [(U ''Set 1'', U ''Song A'')]"
    by (simp add: eval_defs setlist_line_def clean_wiki_links_def)
  have sets: "parse_obsidian_setlist ?doc = [(U ''Set 1'', U ''Song A'')]"
    by (simp add: parse_obsidian_setlist_def setlist_region_def Let_def lines markers header upt_rec)
  have review: "extract_review_section ?doc = []"
    by (simp add: extract_review_section_def Let_def lines markers)
  have d: "spec_date [(U ''date'', U ''2023-05-02'')] (U ''2023-05-01'') = U ''2023-05-02''"
    by (simp add: eval_defs spec_date_def)
  from filtered_file_resolves [OF kept readable] kept show ?thesis
    by (simp add: metadata sets review d)
qed

text \<open>
  Claim C10 as stated fails: the stem \<open>2023-05-01\<close> followed by a line feed passes the
  filter, and without a frontmatter date the show gets the date \<open>2023-05-01\<close>, which
  is not the stem.
\<close>

theorem newline_stem_date:
  "\<not> filtered_out (U ''2023-05-01'' @ [10]) \<and>
   parse_obsidian_frontmatter (U ''---\<newline>---\<newline>**Set 1:** Song A'') = [] \<and>
   resolve_date [] (U ''2023-05-01'' @ [10]) = Some (U ''2023-05-01'') \<and>
   scan_file \<lparr>stem = U ''2023-05-01'' @ [10], path = U ''p'',
              text_of = Some (U ''---\<newline>---\<newline>**Set 1:** Song A'')\<rparr> =
     Show (U ''2023-05-01'')
       (make_show (U ''2023-05-01'') [] [(U ''Set 1'', U ''Song A'')] [] (U ''p''))"
proof -
  let ?doc = "U ''---\<newline>---\<newline>**Set 1:** Song A''"
  let ?st = "U ''2023-05-01'' @ [10]"
  have kept: "\<not> filtered_out ?st"
    by (simp add: eval_defs filtered_out_def)
  have metadata: "parse_obsidian_frontmatter ?doc = []"
    by (simp add: eval_defs parse_obsidian_frontmatter_def)
  have d: "resolve_date [] ?st = Some (U ''2023-05-01'')"
    by (simp add: eval_defs resolve_date_def)
  have lines: "splitlines ?doc = [U ''---'', U ''---'', U ''**Set 1:** Song A'']"
    by (simp add: eval_defs is_linebreak_def)
  have markers: "marker_lines [U ''---'', U ''---'', U ''**Set 1:** Song A''] = [0, 1]"
    by (simp add: eval_defs marker_lines_def upt_rec)
  have header: "setlist_line [U ''---'', U ''---'', U ''**Set 1:** Song A''] [] (Suc (Suc 0)) =
      [(U ''Set 1'', U ''Song A'')]"
    by (simp add: eval_defs setlist_line_def clean_wiki_links_def)
  have sets: "parse_obsidian_setlist ?doc = [(U ''Set 1'', U ''Song A'')]"
    by (simp add: parse_obsidian_setlist_def setlist_region_def Let_def lines markers header upt_rec)
  have review: "extract_review_section ?doc = []"
    by (simp add: extract_review_section_def Let_def lines markers)
  have nonempty: "U ''2023-05-01'' \<noteq> []" by (simp add: U_def)
  have scan: "scan_file \<lparr>stem = ?st, path = U ''p'', text_of = Some ?doc\<rparr> =
     Show (U ''2023-05-01'') (make_show (U ''2023-05-01'') [] [(U ''Set 1'', U ''Song A'')] [] (U ''p''))"
    using kept nonempty by (simp add: scan_file_def Let_def metadata d sets review)
  from kept metadata d scan show ?thesis by simp
qed

end
